theory Spec2Isabelle
  imports Main
begin

section \<open>Data model of the puzzle feed (app/(tabs)/puzzles.tsx)\<close>

text \<open>
  Squares are the strings of chess.js (\<open>'e2'\<close>). \<open>LastMove\<close> is \<open>{from, to}\<close>;
  \<open>MoveSpec\<close> adds the optional promotion piece. The field names \<open>from\<close> and \<open>to\<close>
  carry a suffix because \<open>from\<close> is a keyword here.
\<close>

type_synonym Square = string

record LastMove =
  from_sq :: Square
  to_sq :: Square

datatype Promotion = Promo_q | Promo_r | Promo_b | Promo_n

record MoveSpec = LastMove +
  promotion :: "Promotion option"

datatype Side = Side_w | Side_b

text \<open>
  The rules engine is external. \<open>new Chess()\<close> followed by \<open>try { chess.load(fen) } catch {}\<close>
  is a function of the position string alone, so the engine object a board holds is
  represented by the string it was created from. The moves that the \<open>Board\<close> component
  makes on that object (\<open>chess.move\<close>) happen inside the engine, before \<open>onMovePlayed\<close>
  is called; the functions below only pass the object on.
\<close>

datatype Chess = Chess string

text \<open>
  \<open>BoardModel\<close>, field by field. \<open>id\<close> is named \<open>board_id\<close> (\<open>id\<close> is the identity
  function of HOL) and the label of the puzzle's theme is named \<open>tactic_label\<close> (the
  source's name is reserved here). The optional fields \<open>lastMove\<close> and \<open>lastMoveCorrect\<close> are options:
  \<open>None\<close> is \<open>undefined\<close>. \<open>version\<close> and \<open>stepIndex\<close> start at 0 and are only ever
  incremented by 1, so they are natural numbers (a JavaScript number counts exactly up to
  2^53, far beyond the moves of a session).
\<close>

record BoardModel =
  board_id :: string
  chess :: Chess
  liked :: bool
  starred :: bool
  version :: nat
  tactic_label :: string
  sideToPlay :: Side
  lastMove :: "LastMove option"
  solution :: "MoveSpec list"
  stepIndex :: nat
  solved :: bool
  correctSquares :: "Square list"
  lastMoveCorrect :: "bool option"

text \<open>An entry of \<open>PRESET_PUZZLES\<close>; its fields are prefixed to keep them apart from the board's.\<close>

record Preset =
  fen :: string
  preset_tactic :: string
  preset_sideToPlay :: Side
  preset_solution :: "MoveSpec list"

definition mv :: "Square \<Rightarrow> Square \<Rightarrow> MoveSpec" where
  "mv f t = \<lparr>from_sq = f, to_sq = t, promotion = None\<rparr>"

definition PRESET_PUZZLES :: "Preset list" where
  "PRESET_PUZZLES =
   [\<lparr>fen = ''rnbqkbnr/pppppppp/8/8/8/8/PPPPPPPP/RNBQKBNR w KQkq - 0 1'',
     preset_tactic = ''Double Attack'', preset_sideToPlay = Side_w,
     preset_solution = [mv ''e2'' ''e4'']\<rparr>,
    \<lparr>fen = ''rnbqkbnr/pppppppp/8/8/8/8/PPPPPPPP/RNBQKBNR b KQkq - 0 1'',
     preset_tactic = ''Pin'', preset_sideToPlay = Side_b,
     preset_solution = [mv ''e7'' ''e5'']\<rparr>,
    \<lparr>fen = ''r1bqkbnr/pppp1ppp/2n5/4p3/3P4/5N2/PPP1PPPP/RNBQKB1R w KQkq - 2 3'',
     preset_tactic = ''Fork'', preset_sideToPlay = Side_w,
     preset_solution = [mv ''d4'' ''e5'', mv ''f3'' ''d4'']\<rparr>,
    \<lparr>fen = ''rnbqk2r/ppp2ppp/3b1n2/3pp3/3P4/2P1PN2/PP1N1PPP/R1BQKB1R w KQkq - 0 6'',
     preset_tactic = ''Skewer'', preset_sideToPlay = Side_w,
     preset_solution = [mv ''d1'' ''b3'']\<rparr>,
    \<lparr>fen = ''r1bqkbnr/pppp1ppp/2n5/4p3/3P4/2N5/PPP1PPPP/R1BQKBNR b KQkq - 1 3'',
     preset_tactic = ''Discovered Attack'', preset_sideToPlay = Side_b,
     preset_solution = [mv ''c6'' ''d4'']\<rparr>,
    \<lparr>fen = ''rnbq1rk1/ppp2ppp/3b1n2/3pp3/3P4/2P1PN2/PP1N1PPP/R1BQ1RK1 w - - 2 8'',
     preset_tactic = ''Back Rank Mate'', preset_sideToPlay = Side_w,
     preset_solution = [mv ''d1'' ''d8'']\<rparr>,
    \<lparr>fen = ''r1bqk2r/ppp2ppp/2nb1n2/3pp3/3P4/2P1PN2/PP1N1PPP/R1BQKB1R b KQkq - 2 6'',
     preset_tactic = ''Smothered Mate'', preset_sideToPlay = Side_b,
     preset_solution = [mv ''e8'' ''g8'', mv ''g8'' ''h8'']\<rparr>,
    \<lparr>fen = ''r1bqk2r/ppp2ppp/2nb1n2/3pp3/3P4/2P1PN2/PP1N1PPP/R1BQKB1R w KQkq - 3 7'',
     preset_tactic = ''Queen Sacrifice'', preset_sideToPlay = Side_w,
     preset_solution = [mv ''d1'' ''h5'']\<rparr>,
    \<lparr>fen = ''rnbqk2r/ppp2ppp/3b1n2/3pp3/3P4/2P1PN2/PP1N1PPP/R1BQKB1R w KQkq - 0 6'',
     preset_tactic = ''Deflection'', preset_sideToPlay = Side_w,
     preset_solution = [mv ''c3'' ''d4'']\<rparr>,
    \<lparr>fen = ''r1bqkbnr/pppp1ppp/2n5/4p3/3P4/2N5/PPP1PPPP/R1BQKBNR w KQkq - 2 3'',
     preset_tactic = ''Overloading'', preset_sideToPlay = Side_w,
     preset_solution = [mv ''c3'' ''d5'']\<rparr>]"

definition createBoardFromPreset :: "Preset \<Rightarrow> string \<Rightarrow> BoardModel" where
  "createBoardFromPreset p i =
     \<lparr>board_id = i, chess = Chess (fen p), liked = False, starred = False, version = 0,
      tactic_label = preset_tactic p, sideToPlay = preset_sideToPlay p, lastMove = None,
      solution = preset_solution p, stepIndex = 0, solved = False, correctSquares = [],
      lastMoveCorrect = None\<rparr>"

subsection \<open>Board ids\<close>

text \<open>The decimal digits of a number, as the template string \<open>`b-${i}`\<close> prints it.\<close>

fun digits :: "nat \<Rightarrow> string" where
  "digits n =
     (if n < 10 then [char_of (48 + n)]
      else digits (n div 10) @ [char_of (48 + n mod 10)])"

declare digits.simps [simp del]

definition boardId :: "nat \<Rightarrow> string" where
  "boardId i = ''b-'' @ digits i"

subsection \<open>The feed: useBoards and addBoard\<close>

text \<open>
  The state of the feed: the \<open>boards\<close> array, the two refs of \<open>useBoards\<close>, the number of
  pending \<open>setTimeout\<close> callbacks of \<open>addBoard\<close>, and the \<open>scrollToIndex\<close> calls that
  \<open>onMovePlayed\<close> has scheduled, each as (delay in ms, index).
\<close>

record Feed =
  boards :: "BoardModel list"
  loadingRef :: bool
  cursorRef :: nat
  timers :: nat
  scrolls :: "(nat \<times> nat) list"

definition presetAt :: "nat \<Rightarrow> Preset" where
  "presetAt i = PRESET_PUZZLES ! (i mod length PRESET_PUZZLES)"

definition useBoards :: "nat \<Rightarrow> Feed" where
  "useBoards initial =
     \<lparr>boards = map (\<lambda>i. createBoardFromPreset (presetAt i) (boardId i)) [0..<initial],
      loadingRef = False, cursorRef = initial, timers = 0, scrolls = []\<rparr>"

text \<open>\<open>addBoard\<close>: the call itself, and the callback its timer runs 5 ms later.\<close>

definition addBoard :: "Feed \<Rightarrow> Feed" where
  "addBoard s =
     (if loadingRef s then s else s\<lparr>loadingRef := True, timers := timers s + 1\<rparr>)"

definition addBoard_timeout :: "Feed \<Rightarrow> Feed" where
  "addBoard_timeout s =
     s\<lparr>boards := boards s @
          [createBoardFromPreset (presetAt (cursorRef s)) (boardId (length (boards s)))],
       cursorRef := cursorRef s + 1,
       loadingRef := False\<rparr>"

subsection \<open>Reactions\<close>

definition toggleLike :: "string \<Rightarrow> BoardModel list \<Rightarrow> BoardModel list" where
  "toggleLike i prev = map (\<lambda>b. if board_id b = i then b\<lparr>liked := \<not> liked b\<rparr> else b) prev"

definition toggleStar :: "string \<Rightarrow> BoardModel list \<Rightarrow> BoardModel list" where
  "toggleStar i prev = map (\<lambda>b. if board_id b = i then b\<lparr>starred := \<not> starred b\<rparr> else b) prev"

text \<open>
  The handlers of the page address the board by \<open>currentIndex\<close> and return at once when
  there is no board at that index.
\<close>

definition onDoubleTap :: "nat \<Rightarrow> BoardModel list \<Rightarrow> BoardModel list" where
  "onDoubleTap currentIndex prev =
     (if \<not> currentIndex < length prev then prev
      else map (\<lambda>(i, b). if i = currentIndex then b\<lparr>liked := \<not> liked b\<rparr> else b)
             (enumerate 0 prev))"

definition onTapLike :: "nat \<Rightarrow> BoardModel list \<Rightarrow> BoardModel list" where
  "onTapLike currentIndex prev =
     (if \<not> currentIndex < length prev then prev
      else map (\<lambda>(i, b). if i = currentIndex then b\<lparr>liked := \<not> liked b\<rparr> else b)
             (enumerate 0 prev))"

definition onTapStar :: "nat \<Rightarrow> BoardModel list \<Rightarrow> BoardModel list" where
  "onTapStar currentIndex prev =
     (if \<not> currentIndex < length prev then prev
      else map (\<lambda>(i, b). if i = currentIndex then b\<lparr>starred := \<not> starred b\<rparr> else b)
             (enumerate 0 prev))"

subsection \<open>onMovePlayed\<close>

text \<open>
  \<open>onMovePlayed\<close> maps a callback over the array. For the board whose id matches, the
  callback computes \<open>expected\<close>, \<open>playedMatches\<close> and \<open>solvedNow\<close>, starts at most one
  timer and returns the updated board. Here \<open>movedBoard\<close> is the board it returns and
  \<open>scrollAfter\<close> the timers it starts, over the same two tests; \<open>onMovePlayed\<close> returns
  the new array together with the timers started. The sound played first is left out.
  \<open>b.solution[step]\<close> is \<open>undefined\<close> past the end of the array, and then
  \<open>playedMatches\<close> is \<open>true\<close>.
\<close>

definition expected :: "BoardModel \<Rightarrow> MoveSpec option" where
  "expected b =
     (if stepIndex b < length (solution b) then Some (solution b ! stepIndex b) else None)"

definition playedMatches :: "BoardModel \<Rightarrow> LastMove \<Rightarrow> bool" where
  "playedMatches b lm =
     (case expected b of
        Some e \<Rightarrow> from_sq e = from_sq lm \<and> to_sq e = to_sq lm
      | None \<Rightarrow> True)"

definition solvedNow :: "BoardModel \<Rightarrow> bool" where
  "solvedNow b = (stepIndex b + 1 \<ge> length (solution b) \<and> length (solution b) > 0)"

text \<open>The object that the map callback returns for the board whose id matches.\<close>

definition movedBoard :: "LastMove \<Rightarrow> BoardModel \<Rightarrow> BoardModel" where
  "movedBoard lm b =
     (if \<not> playedMatches b lm
      then b\<lparr>lastMove := Some lm, lastMoveCorrect := Some False, correctSquares := [],
             version := version b + 1\<rparr>
      else b\<lparr>lastMove := Some lm, lastMoveCorrect := Some True,
             stepIndex := stepIndex b + 1,
             solved := (if solvedNow b then True else solved b),
             correctSquares := [to_sq lm],
             version := version b + 1\<rparr>)"

text \<open>
  The timers that the callback starts for the board at index \<open>i\<close> of an array of length
  \<open>n\<close>: (delay, \<open>Math.min(i + 1, prev.length - 1)\<close>). The callback runs on an element of
  the array, so \<open>n\<close> is at least 1 and the subtraction does not go below 0.
\<close>

definition scrollAfter :: "nat \<Rightarrow> nat \<Rightarrow> LastMove \<Rightarrow> BoardModel \<Rightarrow> (nat \<times> nat) list" where
  "scrollAfter n i lm b =
     (if \<not> playedMatches b lm then [(350, min (i + 1) (n - 1))]
      else if solvedNow b then [(550, min (i + 1) (n - 1))]
      else [])"

definition onMovePlayed ::
  "string \<Rightarrow> LastMove \<Rightarrow> BoardModel list \<Rightarrow> BoardModel list \<times> (nat \<times> nat) list" where
  "onMovePlayed i lm prev =
     (map (\<lambda>b. if board_id b \<noteq> i then b else movedBoard lm b) prev,
      concat (map (\<lambda>(k, b). if board_id b \<noteq> i then [] else scrollAfter (length prev) k lm b)
                (enumerate 0 prev)))"

subsection \<open>Events of a session\<close>

text \<open>
  What can happen to the feed, one event at a time: a move reported by a board, a tap on
  the heart or the star of a board, a double tap or a tap handled by the page for the
  board in view, a call of \<open>addBoard\<close>, and the firing of a pending \<open>addBoard\<close> timer.
\<close>

datatype Event =
    MovePlayed string LastMove
  | ToggleLike string
  | ToggleStar string
  | DoubleTap nat
  | TapLike nat
  | TapStar nat
  | AddBoard
  | AddBoardTimeout

fun step :: "Event \<Rightarrow> Feed \<Rightarrow> Feed" where
  "step (MovePlayed i lm) s =
     s\<lparr>boards := fst (onMovePlayed i lm (boards s)),
       scrolls := scrolls s @ snd (onMovePlayed i lm (boards s))\<rparr>"
| "step (ToggleLike i) s = s\<lparr>boards := toggleLike i (boards s)\<rparr>"
| "step (ToggleStar i) s = s\<lparr>boards := toggleStar i (boards s)\<rparr>"
| "step (DoubleTap k) s = s\<lparr>boards := onDoubleTap k (boards s)\<rparr>"
| "step (TapLike k) s = s\<lparr>boards := onTapLike k (boards s)\<rparr>"
| "step (TapStar k) s = s\<lparr>boards := onTapStar k (boards s)\<rparr>"
| "step AddBoard s = addBoard s"
| "step AddBoardTimeout s =
     (if timers s = 0 then s else addBoard_timeout (s\<lparr>timers := timers s - 1\<rparr>))"

fun run :: "Event list \<Rightarrow> Feed \<Rightarrow> Feed" where
  "run [] s = s"
| "run (e # es) s = run es (step e s)"

text \<open>One board played on its own: the moves of a list, in order.\<close>

fun playMoves :: "LastMove list \<Rightarrow> BoardModel \<Rightarrow> BoardModel" where
  "playMoves [] b = b"
| "playMoves (m # ms) b = playMoves ms (movedBoard m b)"

definition toMove :: "MoveSpec \<Rightarrow> LastMove" where
  "toMove e = \<lparr>from_sq = from_sq e, to_sq = to_sq e\<rparr>"

subsection \<open>Invariant of the feed\<close>

text \<open>
  \<open>builtFrom i b\<close>: board \<open>b\<close> carries the id \<open>b-i\<close> and the data of the catalog entry at
  \<open>i mod K\<close>. \<open>feed_inv\<close>: every board of the feed is built from the entry of its own
  index, and the cursor of \<open>useBoards\<close> equals the length of the feed.
\<close>

definition builtFrom :: "nat \<Rightarrow> BoardModel \<Rightarrow> bool" where
  "builtFrom i b =
     (board_id b = boardId i \<and> chess b = Chess (fen (presetAt i)) \<and>
      tactic_label b = preset_tactic (presetAt i) \<and>
      sideToPlay b = preset_sideToPlay (presetAt i) \<and>
      solution b = preset_solution (presetAt i))"

definition feed_inv :: "Feed \<Rightarrow> bool" where
  "feed_inv s =
     (cursorRef s = length (boards s) \<and> (\<forall>i<length (boards s). builtFrom i (boards s ! i)))"

section \<open>The splash screen and the onboarding flag (app/index.tsx, lib/storage, lib/config)\<close>

text \<open>
  The store is a list of the writes made, newest first; reading a key finds its newest
  write. A read or a write of the store may also reject.
\<close>

type_synonym Store = "(string \<times> string) list"

definition getItem :: "Store \<Rightarrow> string \<Rightarrow> string option" where
  "getItem st k = map_of st k"

definition setItem :: "Store \<Rightarrow> string \<Rightarrow> string \<Rightarrow> Store" where
  "setItem st k v = (k, v) # st"

datatype ReadResult = Rejected | Resolved "string option"

definition FORCE_ONBOARDING_EVERY_TIME :: bool where
  "FORCE_ONBOARDING_EVERY_TIME = True"

text \<open>
  \<open>hasCompletedRef.current\<close> when the animation ends: it starts \<open>false\<close> and is assigned
  only when the read has resolved by then (\<open>None\<close>: not settled yet).
\<close>

definition hasCompleted :: "ReadResult option \<Rightarrow> bool" where
  "hasCompleted r =
     (case r of Some (Resolved v) \<Rightarrow> v = Some ''1'' | Some Rejected \<Rightarrow> False | None \<Rightarrow> False)"

definition splashPath :: "bool \<Rightarrow> bool \<Rightarrow> string" where
  "splashPath force completed =
     (if force then ''/onboarding'' else if completed then ''/(tabs)/puzzles'' else ''/onboarding'')"

definition Splash :: "ReadResult option \<Rightarrow> string" where
  "Splash r = splashPath FORCE_ONBOARDING_EVERY_TIME (hasCompleted r)"

text \<open>
  \<open>completeAndEnter\<close> of the onboarding screen: one \<open>setItem\<close>, whose rejection
  (\<open>ok = False\<close>) is swallowed, then the route to the feed.
\<close>

definition completeAndEnter :: "bool \<Rightarrow> Store \<Rightarrow> Store \<times> string" where
  "completeAndEnter ok st =
     ((if ok then setItem st ''onboardingCompleted'' ''1'' else st), ''/(tabs)/puzzles'')"

section \<open>Properties of the board update\<close>

lemma movedBoard_frame [simp]:
  "board_id (movedBoard lm b) = board_id b"
  "chess (movedBoard lm b) = chess b"
  "liked (movedBoard lm b) = liked b"
  "starred (movedBoard lm b) = starred b"
  "tactic_label (movedBoard lm b) = tactic_label b"
  "sideToPlay (movedBoard lm b) = sideToPlay b"
  "solution (movedBoard lm b) = solution b"
  "lastMove (movedBoard lm b) = Some lm"
  "version (movedBoard lm b) = version b + 1"
  "lastMoveCorrect (movedBoard lm b) = Some (playedMatches b lm)"
  by (simp_all add: movedBoard_def)

lemma movedBoard_correct:
  assumes "playedMatches b lm"
  shows "stepIndex (movedBoard lm b) = stepIndex b + 1"
    and "solved (movedBoard lm b) = (solvedNow b \<or> solved b)"
  using assms by (simp_all add: movedBoard_def)

lemma playedMatches_in_range:
  "stepIndex b < length (solution b) \<Longrightarrow>
   playedMatches b lm =
     (from_sq (solution b ! stepIndex b) = from_sq lm \<and> to_sq (solution b ! stepIndex b) = to_sq lm)"
  by (simp add: playedMatches_def expected_def)

lemma playedMatches_past_end:
  "length (solution b) \<le> stepIndex b \<Longrightarrow> playedMatches b lm"
  by (simp add: playedMatches_def expected_def)

lemma solved_movedBoard_mono: "solved b \<Longrightarrow> solved (movedBoard lm b)"
  by (simp add: movedBoard_def)

lemma playMoves_append: "playMoves (xs @ ys) b = playMoves ys (playMoves xs b)"
  by (induction xs arbitrary: b) simp_all

lemma solution_playMoves [simp]: "solution (playMoves ms b) = solution b"
  by (induction ms arbitrary: b) simp_all

lemma toMove_matches:
  "stepIndex b < length (solution b) \<Longrightarrow> playedMatches b (toMove (solution b ! stepIndex b))"
  by (simp add: playedMatches_in_range toMove_def)

lemma play_solution_prefix:
  assumes "stepIndex b = 0" and "k \<le> length (solution b)"
  shows "stepIndex (playMoves (map toMove (take k (solution b))) b) = k \<and>
         solved (playMoves (map toMove (take k (solution b))) b) =
           (solved b \<or> (k = length (solution b) \<and> 0 < k))"
  using assms(2)
proof (induction k)
  case 0
  with assms(1) show ?case by simp
next
  case (Suc k)
  let ?b = "playMoves (map toMove (take k (solution b))) b"
  from Suc have k: "k < length (solution b)" by simp
  with Suc have st: "stepIndex ?b = k"
    and sv: "solved ?b = (solved b \<or> (k = length (solution b) \<and> 0 < k))" by simp_all
  have sol: "solution ?b = solution b" by simp
  have m: "playedMatches ?b (toMove (solution b ! k))"
    using toMove_matches [of ?b] k st sol by simp
  have unf: "playMoves (map toMove (take (Suc k) (solution b))) b =
             movedBoard (toMove (solution b ! k)) ?b"
    using k by (simp add: take_Suc_conv_app_nth playMoves_append)
  have now: "solvedNow ?b = (Suc k = length (solution b))"
    using k st sol by (auto simp: solvedNow_def)
  show ?case
    unfolding unf using movedBoard_correct [OF m] st sv now k by auto
qed

subsection \<open>The array operations, element by element\<close>

lemma length_onMovePlayed [simp]: "length (fst (onMovePlayed i lm prev)) = length prev"
  by (simp add: onMovePlayed_def)

lemma nth_onMovePlayed:
  "j < length prev \<Longrightarrow>
   fst (onMovePlayed i lm prev) ! j =
     (if board_id (prev ! j) \<noteq> i then prev ! j else movedBoard lm (prev ! j))"
  by (simp add: onMovePlayed_def)

lemma length_toggleLike [simp]: "length (toggleLike i prev) = length prev"
  by (simp add: toggleLike_def)

lemma nth_toggleLike:
  "j < length prev \<Longrightarrow>
   toggleLike i prev ! j =
     (if board_id (prev ! j) = i then (prev ! j)\<lparr>liked := \<not> liked (prev ! j)\<rparr> else prev ! j)"
  by (simp add: toggleLike_def)

lemma length_toggleStar [simp]: "length (toggleStar i prev) = length prev"
  by (simp add: toggleStar_def)

lemma nth_toggleStar:
  "j < length prev \<Longrightarrow>
   toggleStar i prev ! j =
     (if board_id (prev ! j) = i then (prev ! j)\<lparr>starred := \<not> starred (prev ! j)\<rparr> else prev ! j)"
  by (simp add: toggleStar_def)

lemma length_onDoubleTap [simp]: "length (onDoubleTap k prev) = length prev"
  by (simp add: onDoubleTap_def)

lemma nth_onDoubleTap:
  "j < length prev \<Longrightarrow>
   onDoubleTap k prev ! j =
     (if j = k then (prev ! j)\<lparr>liked := \<not> liked (prev ! j)\<rparr> else prev ! j)"
  by (auto simp: onDoubleTap_def nth_enumerate_eq)

lemma length_onTapLike [simp]: "length (onTapLike k prev) = length prev"
  by (simp add: onTapLike_def)

lemma nth_onTapLike:
  "j < length prev \<Longrightarrow>
   onTapLike k prev ! j =
     (if j = k then (prev ! j)\<lparr>liked := \<not> liked (prev ! j)\<rparr> else prev ! j)"
  by (auto simp: onTapLike_def nth_enumerate_eq)

lemma length_onTapStar [simp]: "length (onTapStar k prev) = length prev"
  by (simp add: onTapStar_def)

lemma nth_onTapStar:
  "j < length prev \<Longrightarrow>
   onTapStar k prev ! j =
     (if j = k then (prev ! j)\<lparr>starred := \<not> starred (prev ! j)\<rparr> else prev ! j)"
  by (auto simp: onTapStar_def nth_enumerate_eq)

subsection \<open>Steps and runs of the feed\<close>

lemma length_step: "length (boards s) \<le> length (boards (step e s))"
  by (cases e) (simp_all add: addBoard_def addBoard_timeout_def)

lemma length_run: "length (boards s) \<le> length (boards (run es s))"
proof (induction es arbitrary: s)
  case Nil
  show ?case by simp
next
  case (Cons e es)
  from length_step [of s e] Cons [of "step e s"] show ?case by simp
qed

lemma step_nth_cases:
  assumes "j < length (boards s)"
  shows "boards (step e s) ! j = boards s ! j \<or>
         (\<exists>lm. boards (step e s) ! j = movedBoard lm (boards s ! j)) \<or>
         boards (step e s) ! j = (boards s ! j)\<lparr>liked := \<not> liked (boards s ! j)\<rparr> \<or>
         boards (step e s) ! j = (boards s ! j)\<lparr>starred := \<not> starred (boards s ! j)\<rparr>"
proof (cases e)
  case (MovePlayed i lm)
  with assms show ?thesis by (auto simp: nth_onMovePlayed)
next
  case (ToggleLike i)
  with assms show ?thesis by (simp add: nth_toggleLike)
next
  case (ToggleStar i)
  with assms show ?thesis by (simp add: nth_toggleStar)
next
  case (DoubleTap k)
  with assms show ?thesis by (simp add: nth_onDoubleTap)
next
  case (TapLike k)
  with assms show ?thesis by (simp add: nth_onTapLike)
next
  case (TapStar k)
  with assms show ?thesis by (simp add: nth_onTapStar)
next
  case AddBoard
  then show ?thesis by (simp add: addBoard_def)
next
  case AddBoardTimeout
  with assms show ?thesis by (simp add: addBoard_timeout_def nth_append)
qed

lemma step_preserves:
  assumes mv: "\<And>b lm. P b \<Longrightarrow> P (movedBoard lm b)"
    and lk: "\<And>b. P b \<Longrightarrow> P (b\<lparr>liked := \<not> liked b\<rparr>)"
    and st: "\<And>b. P b \<Longrightarrow> P (b\<lparr>starred := \<not> starred b\<rparr>)"
    and j: "j < length (boards s)" and p: "P (boards s ! j)"
  shows "P (boards (step e s) ! j)"
  using step_nth_cases [OF j, of e] mv [OF p] lk [OF p] st [OF p] p by auto

lemma run_preserves:
  assumes mv: "\<And>b lm. P b \<Longrightarrow> P (movedBoard lm b)"
    and lk: "\<And>b. P b \<Longrightarrow> P (b\<lparr>liked := \<not> liked b\<rparr>)"
    and st: "\<And>b. P b \<Longrightarrow> P (b\<lparr>starred := \<not> starred b\<rparr>)"
  shows "j < length (boards s) \<Longrightarrow> P (boards s ! j) \<Longrightarrow> P (boards (run es s) ! j)"
proof (induction es arbitrary: s)
  case Nil
  then show ?case by simp
next
  case (Cons e es)
  have "j < length (boards (step e s))"
    using Cons.prems(1) length_step [of s e] by simp
  moreover have "P (boards (step e s) ! j)"
    using step_preserves [of P j s e] mv lk st Cons.prems by blast
  ultimately show ?case using Cons.IH by simp
qed

lemma run_moves_nth:
  "j < length (boards s) \<Longrightarrow> board_id (boards s ! j) = i \<Longrightarrow>
   boards (run (map (MovePlayed i) ms) s) ! j = playMoves ms (boards s ! j)"
proof (induction ms arbitrary: s)
  case Nil
  show ?case by simp
next
  case (Cons m ms)
  let ?s = "step (MovePlayed i m) s"
  have 1: "j < length (boards ?s)" using Cons.prems by simp
  have 2: "boards ?s ! j = movedBoard m (boards s ! j)"
    using Cons.prems by (simp add: nth_onMovePlayed)
  then have 3: "board_id (boards ?s ! j) = i" using Cons.prems by simp
  from Cons.IH [OF 1 3] 2 show ?case by simp
qed

subsection \<open>The timers started by onMovePlayed\<close>

lemma scrolls_none:
  "\<forall>b \<in> set xs. board_id b \<noteq> i \<Longrightarrow>
   concat (map (\<lambda>(k, b). if board_id b \<noteq> i then [] else g k b) (enumerate n xs)) = []"
  by (induction xs arbitrary: n) simp_all

lemma scrolls_single:
  assumes "j < length xs" and "board_id (xs ! j) = i"
    and "\<forall>k<length xs. k \<noteq> j \<longrightarrow> board_id (xs ! k) \<noteq> i"
  shows "concat (map (\<lambda>(k, b). if board_id b \<noteq> i then [] else g k b) (enumerate n xs))
         = g (n + j) (xs ! j)"
  using assms
proof (induction xs arbitrary: n j)
  case Nil
  then show ?case by simp
next
  case (Cons x xs)
  show ?case
  proof (cases j)
    case 0
    have "\<forall>b \<in> set xs. board_id b \<noteq> i"
    proof
      fix b assume "b \<in> set xs"
      then obtain k where k: "k < length xs" "xs ! k = b" by (auto simp: in_set_conv_nth)
      with Cons.prems(3) [rule_format, of "Suc k"] 0 show "board_id b \<noteq> i" by simp
    qed
    then have "concat (map (\<lambda>(k, b). if board_id b \<noteq> i then [] else g k b) (enumerate (Suc n) xs)) = []"
      by (rule scrolls_none)
    with 0 Cons.prems(2) show ?thesis by simp
  next
    case (Suc j')
    have hd: "board_id x \<noteq> i"
      using Cons.prems(3) [rule_format, of 0] Suc by simp
    have 1: "j' < length xs" using Cons.prems(1) Suc by simp
    have 2: "board_id (xs ! j') = i" using Cons.prems(2) Suc by simp
    have 3: "\<forall>k<length xs. k \<noteq> j' \<longrightarrow> board_id (xs ! k) \<noteq> i"
    proof (intro allI impI)
      fix k assume "k < length xs" "k \<noteq> j'"
      with Cons.prems(3) [rule_format, of "Suc k"] Suc show "board_id (xs ! k) \<noteq> i" by simp
    qed
    from Cons.IH [OF 1 2 3, of "Suc n"] hd Suc show ?thesis by simp
  qed
qed

lemma snd_onMovePlayed_single:
  assumes "j < length prev" and "board_id (prev ! j) = i"
    and "\<forall>k<length prev. k \<noteq> j \<longrightarrow> board_id (prev ! k) \<noteq> i"
  shows "snd (onMovePlayed i lm prev) = scrollAfter (length prev) j lm (prev ! j)"
  using scrolls_single [OF assms, of "\<lambda>k b. scrollAfter (length prev) k lm b" 0]
  by (simp add: onMovePlayed_def)

subsection \<open>Board ids are distinct\<close>

lemma char_of_digit_inj:
  "a < 10 \<Longrightarrow> b < 10 \<Longrightarrow> char_of (48 + a :: nat) = (char_of (48 + b :: nat) :: char) \<Longrightarrow> a = b"
  by (simp add: char_of_eq_iff take_bit_nat_eq_self)

lemma digits_nonempty: "digits n \<noteq> []"
  by (subst digits.simps) simp

lemma digits_inj: "digits n = digits m \<Longrightarrow> n = m"
proof (induction n arbitrary: m rule: digits.induct)
  case (1 n)
  show ?case
  proof (cases "n < 10")
    case True
    then have dn: "digits n = [char_of (48 + n)]" by (subst digits.simps) simp
    show ?thesis
    proof (cases "m < 10")
      case m: True
      then have "digits m = [char_of (48 + m)]" by (subst digits.simps) simp
      with dn "1.prems" True m show ?thesis by (simp add: char_of_digit_inj)
    next
      case False
      then have "digits m = digits (m div 10) @ [char_of (48 + m mod 10)]"
        by (subst digits.simps) simp
      with dn "1.prems" digits_nonempty [of "m div 10"] show ?thesis by simp
    qed
  next
    case False
    then have dn: "digits n = digits (n div 10) @ [char_of (48 + n mod 10)]"
      by (subst digits.simps) simp
    show ?thesis
    proof (cases "m < 10")
      case True
      then have "digits m = [char_of (48 + m)]" by (subst digits.simps) simp
      with dn "1.prems" digits_nonempty [of "n div 10"] show ?thesis by simp
    next
      case m: False
      then have dm: "digits m = digits (m div 10) @ [char_of (48 + m mod 10)]"
        by (subst digits.simps) simp
      from dn dm "1.prems" have e1: "digits (n div 10) = digits (m div 10)"
        and e2: "(char_of (48 + n mod 10) :: char) = char_of (48 + m mod 10)" by simp_all
      from "1.IH" [OF False e1] have d: "n div 10 = m div 10" .
      from e2 have r: "n mod 10 = m mod 10" by (intro char_of_digit_inj) simp_all
      from d r show ?thesis by (metis div_mult_mod_eq)
    qed
  qed
qed

lemma boardId_inj: "boardId i = boardId j \<Longrightarrow> i = j"
  by (simp add: boardId_def digits_inj)

subsection \<open>Every board of a feed is built from the catalog entry of its index\<close>

lemma builtFrom_created: "builtFrom i (createBoardFromPreset (presetAt i) (boardId i))"
  by (simp add: builtFrom_def createBoardFromPreset_def)

lemma builtFrom_movedBoard: "builtFrom i b \<Longrightarrow> builtFrom i (movedBoard lm b)"
  by (simp add: builtFrom_def)

lemma builtFrom_liked: "builtFrom i b \<Longrightarrow> builtFrom i (b\<lparr>liked := v\<rparr>)"
  by (simp add: builtFrom_def)

lemma builtFrom_starred: "builtFrom i b \<Longrightarrow> builtFrom i (b\<lparr>starred := v\<rparr>)"
  by (simp add: builtFrom_def)

lemma feed_inv_useBoards: "feed_inv (useBoards initial)"
  by (simp add: feed_inv_def useBoards_def builtFrom_created)

lemma step_same_length:
  "e \<noteq> AddBoardTimeout \<Longrightarrow>
   length (boards (step e s)) = length (boards s) \<and> cursorRef (step e s) = cursorRef s"
  by (cases e) (simp_all add: addBoard_def)

lemma feed_inv_step:
  assumes "feed_inv s"
  shows "feed_inv (step e s)"
proof (cases "e = AddBoardTimeout")
  case False
  from step_same_length [OF False, of s]
  have len: "length (boards (step e s)) = length (boards s)"
    and cur: "cursorRef (step e s) = cursorRef s" by simp_all
  have "builtFrom i (boards (step e s) ! i)" if "i < length (boards s)" for i
  proof (rule step_preserves [where P = "builtFrom i"])
    show "builtFrom i (movedBoard lm b)" if "builtFrom i b" for b lm
      using that by (rule builtFrom_movedBoard)
    show "builtFrom i (b\<lparr>liked := \<not> liked b\<rparr>)" if "builtFrom i b" for b
      using that by (rule builtFrom_liked)
    show "builtFrom i (b\<lparr>starred := \<not> starred b\<rparr>)" if "builtFrom i b" for b
      using that by (rule builtFrom_starred)
    show "i < length (boards s)" by (rule that)
    show "builtFrom i (boards s ! i)" using assms that by (simp add: feed_inv_def)
  qed
  with assms len cur show ?thesis by (simp add: feed_inv_def)
next
  case True
  show ?thesis
  proof (cases "timers s = 0")
    case t: True
    with True assms show ?thesis by simp
  next
    case t: False
    from assms have cur: "cursorRef s = length (boards s)"
      and old: "\<And>i. i < length (boards s) \<Longrightarrow> builtFrom i (boards s ! i)"
      by (simp_all add: feed_inv_def)
    have bs: "boards (step e s) =
              boards s @ [createBoardFromPreset (presetAt (length (boards s))) (boardId (length (boards s)))]"
      and c': "cursorRef (step e s) = length (boards s) + 1"
      using True t cur by (simp_all add: addBoard_timeout_def)
    have "builtFrom i (boards (step e s) ! i)" if "i < length (boards s) + 1" for i
    proof (cases "i < length (boards s)")
      case True
      then show ?thesis unfolding bs by (simp add: nth_append old)
    next
      case False
      with that have "i = length (boards s)" by simp
      then show ?thesis unfolding bs by (simp add: builtFrom_created)
    qed
    then show ?thesis
      unfolding feed_inv_def using c' bs by simp
  qed
qed

lemma feed_inv_run: "feed_inv s \<Longrightarrow> feed_inv (run es s)"
  by (induction es arbitrary: s) (simp_all add: feed_inv_step)

lemma feed_inv_distinct:
  assumes "feed_inv s" and "j < length (boards s)" and "k < length (boards s)" and "j \<noteq> k"
  shows "board_id (boards s ! j) \<noteq> board_id (boards s ! k)"
proof
  assume "board_id (boards s ! j) = board_id (boards s ! k)"
  moreover have "board_id (boards s ! j) = boardId j" "board_id (boards s ! k) = boardId k"
    using assms(1-3) by (simp_all add: feed_inv_def builtFrom_def)
  ultimately have "j = k" by (simp add: boardId_inj)
  with assms(4) show False by simp
qed

lemma step_ids_prefix:
  "take (length (boards s)) (map board_id (boards (step e s))) = map board_id (boards s)"
proof (rule nth_equalityI)
  show "length (take (length (boards s)) (map board_id (boards (step e s))))
        = length (map board_id (boards s))"
    using length_step [of s e] by simp
next
  fix i assume "i < length (take (length (boards s)) (map board_id (boards (step e s))))"
  then have i: "i < length (boards s)" by simp
  then have i': "i < length (boards (step e s))" using length_step [of s e] by simp
  have "board_id (boards (step e s) ! i) = board_id (boards s ! i)"
    using step_preserves [where P = "\<lambda>b. board_id b = board_id (boards s ! i)" and j = i and s = s and e = e] i
    by simp
  with i i' show "take (length (boards s)) (map board_id (boards (step e s))) ! i
        = map board_id (boards s) ! i" by simp
qed

lemma run_ids_prefix:
  "take (length (boards s)) (map board_id (boards (run es s))) = map board_id (boards s)"
proof (induction es arbitrary: s)
  case Nil
  show ?case by simp
next
  case (Cons e es)
  have le: "length (boards s) \<le> length (boards (step e s))" by (rule length_step)
  have "take (length (boards s)) (map board_id (boards (run es (step e s))))
        = take (length (boards s)) (take (length (boards (step e s))) (map board_id (boards (run es (step e s)))))"
    using le by (simp add: min_def)
  also have "\<dots> = take (length (boards s)) (map board_id (boards (step e s)))"
    by (simp only: Cons.IH)
  also have "\<dots> = map board_id (boards s)" by (rule step_ids_prefix)
  finally show ?case by simp
qed

lemma length_PRESET_PUZZLES: "length PRESET_PUZZLES = 10"
  by (simp add: PRESET_PUZZLES_def)

section \<open>Claims about the progression of one puzzle\<close>

text \<open>
  C1 (as stated, refuted). The claim says that a move played on an instance whose
  \<open>stepIndex\<close> is at least the length of its solution changes neither \<open>stepIndex\<close> nor
  \<open>lastMove\<close>, so that \<open>stepIndex\<close> never exceeds that length. In the feed of two boards
  the app starts with, board \<open>b-0\<close> has the one-step solution e2-e4. After e2-e4 its
  \<open>stepIndex\<close> is 1, the length of the solution; the reply e7-e5 played on the same board
  then raises \<open>stepIndex\<close> to 2 and replaces \<open>lastMove\<close>.
\<close>

theorem C1_counterexample:
  "stepIndex (boards (run [MovePlayed ''b-0'' (toMove (mv ''e2'' ''e4''))] (useBoards 2)) ! 0) = 1 \<and>
   length (solution (boards (run [MovePlayed ''b-0'' (toMove (mv ''e2'' ''e4''))] (useBoards 2)) ! 0)) = 1 \<and>
   lastMove (boards (run [MovePlayed ''b-0'' (toMove (mv ''e2'' ''e4''))] (useBoards 2)) ! 0)
     = Some (toMove (mv ''e2'' ''e4'')) \<and>
   stepIndex (boards (run [MovePlayed ''b-0'' (toMove (mv ''e2'' ''e4'')),
                           MovePlayed ''b-0'' (toMove (mv ''e7'' ''e5''))] (useBoards 2)) ! 0) = 2 \<and>
   lastMove (boards (run [MovePlayed ''b-0'' (toMove (mv ''e2'' ''e4'')),
                          MovePlayed ''b-0'' (toMove (mv ''e7'' ''e5''))] (useBoards 2)) ! 0)
     = Some (toMove (mv ''e7'' ''e5''))"
  by code_simp

text \<open>
  C1 (amended). When \<open>stepIndex\<close> is at least the length of the solution there is no
  expected step, and \<open>onMovePlayed\<close> takes the played move as matching: \<open>stepIndex\<close> grows
  by one, \<open>lastMove\<close> becomes the played move, \<open>lastMoveCorrect\<close> becomes true, and
  \<open>solved\<close> becomes true unless the solution is empty (then it keeps its value). So
  \<open>stepIndex\<close> does exceed the length of the solution afterwards.
\<close>

theorem C1_move_past_end:
  assumes "j < length prev" and "board_id (prev ! j) = i"
    and "length (solution (prev ! j)) \<le> stepIndex (prev ! j)"
  shows "stepIndex (fst (onMovePlayed i lm prev) ! j) = stepIndex (prev ! j) + 1 \<and>
         lastMove (fst (onMovePlayed i lm prev) ! j) = Some lm \<and>
         lastMoveCorrect (fst (onMovePlayed i lm prev) ! j) = Some True \<and>
         solved (fst (onMovePlayed i lm prev) ! j) = (solved (prev ! j) \<or> solution (prev ! j) \<noteq> []) \<and>
         length (solution (fst (onMovePlayed i lm prev) ! j)) < stepIndex (fst (onMovePlayed i lm prev) ! j)"
proof -
  have m: "playedMatches (prev ! j) lm"
    using assms(3) by (rule playedMatches_past_end)
  have now: "solvedNow (prev ! j) = (solution (prev ! j) \<noteq> [])"
    using assms(3) by (auto simp: solvedNow_def)
  have eq: "fst (onMovePlayed i lm prev) ! j = movedBoard lm (prev ! j)"
    using assms(1,2) by (simp add: nth_onMovePlayed)
  show ?thesis
    unfolding eq using movedBoard_correct [OF m] m now assms(3) by auto
qed

text \<open>Witness for C1 (amended): board \<open>b-0\<close> after e2-e4, and the move e7-e5.\<close>

theorem C1_move_past_end_witness:
  "stepIndex (fst (onMovePlayed ''b-0'' (toMove (mv ''e7'' ''e5''))
       (boards (run [MovePlayed ''b-0'' (toMove (mv ''e2'' ''e4''))] (useBoards 2)))) ! 0) = 2 \<and>
   solved (fst (onMovePlayed ''b-0'' (toMove (mv ''e7'' ''e5''))
       (boards (run [MovePlayed ''b-0'' (toMove (mv ''e2'' ''e4''))] (useBoards 2)))) ! 0)"
proof -
  let ?prev = "boards (run [MovePlayed ''b-0'' (toMove (mv ''e2'' ''e4''))] (useBoards 2))"
  have 1: "0 < length ?prev" by code_simp
  have 2: "board_id (?prev ! 0) = ''b-0''" by code_simp
  have 3: "length (solution (?prev ! 0)) \<le> stepIndex (?prev ! 0)" by code_simp
  have 4: "stepIndex (?prev ! 0) = 1" by code_simp
  have 5: "solved (?prev ! 0)" by code_simp
  from C1_move_past_end [OF 1 2 3, of "toMove (mv ''e7'' ''e5'')"] 4 5
  show ?thesis by simp
qed

text \<open>
  C2. Take a board of the feed with a non-empty solution, \<open>stepIndex\<close> 0 and not solved.
  Playing on it the first \<open>k\<close> steps of its solution, one \<open>onMovePlayed\<close> call each,
  leaves \<open>stepIndex = k\<close> (so each call adds exactly 1), and \<open>solved\<close> holds exactly
  when \<open>k\<close> is the length of the solution: it is set by the last step and by no earlier
  one. Once the whole solution is played, \<open>solved\<close> stays true whatever events follow.
\<close>

theorem C2_solution_in_order:
  assumes "j < length (boards s)"
    and "solution (boards s ! j) \<noteq> []"
    and "stepIndex (boards s ! j) = 0"
    and "\<not> solved (boards s ! j)"
    and "k \<le> length (solution (boards s ! j))"
  shows "stepIndex (boards (run (map (\<lambda>e. MovePlayed (board_id (boards s ! j)) (toMove e))
                                  (take k (solution (boards s ! j)))) s) ! j) = k \<and>
         solved (boards (run (map (\<lambda>e. MovePlayed (board_id (boards s ! j)) (toMove e))
                                  (take k (solution (boards s ! j)))) s) ! j)
           = (k = length (solution (boards s ! j))) \<and>
         (\<forall>es. solved (boards (run es (run (map (\<lambda>e. MovePlayed (board_id (boards s ! j)) (toMove e))
                                  (solution (boards s ! j))) s)) ! j))"
proof -
  let ?b = "boards s ! j"
  let ?i = "board_id ?b"
  have ev: "map (\<lambda>e. MovePlayed ?i (toMove e)) xs = map (MovePlayed ?i) (map toMove xs)" for xs
    by simp
  have nth: "boards (run (map (\<lambda>e. MovePlayed ?i (toMove e)) xs) s) ! j
             = playMoves (map toMove xs) ?b" for xs
    unfolding ev using assms(1) by (rule run_moves_nth) simp
  have pre: "stepIndex (playMoves (map toMove (take k (solution ?b))) ?b) = k \<and>
             solved (playMoves (map toMove (take k (solution ?b))) ?b) =
               (solved ?b \<or> (k = length (solution ?b) \<and> 0 < k))"
    using assms(3,5) by (rule play_solution_prefix)
  have full: "solved (playMoves (map toMove (solution ?b)) ?b)"
    using play_solution_prefix [OF assms(3), of "length (solution ?b)"] assms(2) by simp
  have len: "j < length (boards (run (map (\<lambda>e. MovePlayed ?i (toMove e)) (solution ?b)) s))"
    using assms(1) length_run [of s] by (meson less_le_trans)
  have after: "solved (boards (run es (run (map (\<lambda>e. MovePlayed ?i (toMove e)) (solution ?b)) s)) ! j)"
    for es
  proof (rule run_preserves [where P = solved])
    show "solved (movedBoard lm b)" if "solved b" for b lm
      using that by (rule solved_movedBoard_mono)
    show "solved (b\<lparr>liked := \<not> liked b\<rparr>)" if "solved b" for b :: BoardModel
      using that by simp
    show "solved (b\<lparr>starred := \<not> starred b\<rparr>)" if "solved b" for b :: BoardModel
      using that by simp
    show "j < length (boards (run (map (\<lambda>e. MovePlayed ?i (toMove e)) (solution ?b)) s))"
      by (rule len)
    show "solved (boards (run (map (\<lambda>e. MovePlayed ?i (toMove e)) (solution ?b)) s) ! j)"
      using full by (simp only: nth)
  qed
  have k0: "(k = length (solution ?b) \<and> 0 < k) = (k = length (solution ?b))"
    using assms(2) by auto
  show ?thesis
    using pre after assms(4) by (simp only: nth k0) simp
qed

text \<open>
  Witness for C2: the third board of the feed (the two-step puzzle d4-e5, f3-d4), with both
  steps played.
\<close>

theorem C2_solution_in_order_witness:
  "stepIndex (boards (run (map (\<lambda>e. MovePlayed (board_id (boards (useBoards 3) ! 2)) (toMove e))
                                  (take 2 (solution (boards (useBoards 3) ! 2)))) (useBoards 3)) ! 2) = 2 \<and>
   solved (boards (run (map (\<lambda>e. MovePlayed (board_id (boards (useBoards 3) ! 2)) (toMove e))
                                  (take 2 (solution (boards (useBoards 3) ! 2)))) (useBoards 3)) ! 2) \<and>
   length (solution (boards (useBoards 3) ! 2)) = 2"
proof -
  have 1: "2 < length (boards (useBoards 3))" by code_simp
  have 2: "solution (boards (useBoards 3) ! 2) \<noteq> []" by code_simp
  have 3: "stepIndex (boards (useBoards 3) ! 2) = 0" by code_simp
  have 4: "\<not> solved (boards (useBoards 3) ! 2)" by code_simp
  have 5: "length (solution (boards (useBoards 3) ! 2)) = 2" by code_simp
  have 6: "2 \<le> length (solution (boards (useBoards 3) ! 2))" by code_simp
  from C2_solution_in_order [OF 1 2 3 4 6] 5 show ?thesis by simp
qed

text \<open>
  C3. For a board whose \<open>stepIndex\<close> is inside its solution, the classification that
  \<open>onMovePlayed\<close> records in \<open>lastMoveCorrect\<close> is true exactly when the played move has
  the from-square and the to-square of the expected step. The played move carries no
  promotion piece at all, and replacing the promotion piece of the expected step by any
  other value does not change the classification.
\<close>

theorem C3_correct_iff_from_to:
  assumes "j < length prev" and "board_id (prev ! j) = i"
    and "stepIndex (prev ! j) < length (solution (prev ! j))"
  shows "lastMoveCorrect (fst (onMovePlayed i lm prev) ! j) =
           Some (from_sq lm = from_sq (solution (prev ! j) ! stepIndex (prev ! j)) \<and>
                 to_sq lm = to_sq (solution (prev ! j) ! stepIndex (prev ! j))) \<and>
         playedMatches (prev ! j) lm =
           (from_sq lm = from_sq (solution (prev ! j) ! stepIndex (prev ! j)) \<and>
            to_sq lm = to_sq (solution (prev ! j) ! stepIndex (prev ! j))) \<and>
         (\<forall>p. playedMatches
                ((prev ! j)\<lparr>solution := (solution (prev ! j))
                   [stepIndex (prev ! j) :=
                      (solution (prev ! j) ! stepIndex (prev ! j))\<lparr>promotion := p\<rparr>]\<rparr>) lm
              = playedMatches (prev ! j) lm)"
proof -
  let ?b = "prev ! j"
  have eq: "fst (onMovePlayed i lm prev) ! j = movedBoard lm ?b"
    using assms(1,2) by (simp add: nth_onMovePlayed)
  have pm: "playedMatches ?b lm =
            (from_sq lm = from_sq (solution ?b ! stepIndex ?b) \<and>
             to_sq lm = to_sq (solution ?b ! stepIndex ?b))"
    using assms(3) by (auto simp: playedMatches_in_range)
  have pr: "playedMatches
              (?b\<lparr>solution := (solution ?b)[stepIndex ?b := (solution ?b ! stepIndex ?b)\<lparr>promotion := p\<rparr>]\<rparr>) lm
            = playedMatches ?b lm" for p
    using assms(3) by (simp add: playedMatches_def expected_def)
  show ?thesis
    unfolding eq using pm pr by simp
qed

text \<open>
  Witness for C3: on the first board (solution e2-e4) the move e2-e4 is classified correct
  and the move e2-e3, with the same from-square only, incorrect.
\<close>

theorem C3_correct_iff_from_to_witness:
  "lastMoveCorrect (fst (onMovePlayed ''b-0'' (toMove (mv ''e2'' ''e4'')) (boards (useBoards 2))) ! 0)
     = Some True \<and>
   lastMoveCorrect (fst (onMovePlayed ''b-0'' (toMove (mv ''e2'' ''e3'')) (boards (useBoards 2))) ! 0)
     = Some False"
proof -
  let ?prev = "boards (useBoards 2)"
  have 1: "0 < length ?prev" by code_simp
  have 2: "board_id (?prev ! 0) = ''b-0''" by code_simp
  have 3: "stepIndex (?prev ! 0) < length (solution (?prev ! 0))" by code_simp
  have 4: "solution (?prev ! 0) ! stepIndex (?prev ! 0) = mv ''e2'' ''e4''" by code_simp
  from C3_correct_iff_from_to [OF 1 2 3, of "toMove (mv ''e2'' ''e4'')"]
       C3_correct_iff_from_to [OF 1 2 3, of "toMove (mv ''e2'' ''e3'')"] 4
  show ?thesis by (simp add: toMove_def mv_def)
qed

text \<open>
  C4. For a board whose \<open>stepIndex\<close> is inside its solution, a move that differs from the
  expected step in its from-square or its to-square only records the move
  (\<open>lastMove\<close>), sets \<open>lastMoveCorrect\<close> to false, empties \<open>correctSquares\<close> and bumps
  \<open>version\<close>; \<open>stepIndex\<close>, \<open>solved\<close> and every other field are as before. The board is
  still playable: the expected step played next is accepted and advances \<open>stepIndex\<close>.
\<close>

theorem C4_incorrect_move:
  assumes "j < length prev" and "board_id (prev ! j) = i"
    and "stepIndex (prev ! j) < length (solution (prev ! j))"
    and "\<not> (from_sq lm = from_sq (solution (prev ! j) ! stepIndex (prev ! j)) \<and>
            to_sq lm = to_sq (solution (prev ! j) ! stepIndex (prev ! j)))"
  shows "fst (onMovePlayed i lm prev) ! j =
           (prev ! j)\<lparr>lastMove := Some lm, lastMoveCorrect := Some False,
                      correctSquares := [], version := version (prev ! j) + 1\<rparr> \<and>
         stepIndex (fst (onMovePlayed i lm prev) ! j) = stepIndex (prev ! j) \<and>
         solved (fst (onMovePlayed i lm prev) ! j) = solved (prev ! j) \<and>
         lastMoveCorrect (fst (onMovePlayed i lm prev) ! j) = Some False \<and>
         lastMove (fst (onMovePlayed i lm prev) ! j) = Some lm \<and>
         stepIndex (fst (onMovePlayed i (toMove (solution (prev ! j) ! stepIndex (prev ! j)))
                           (fst (onMovePlayed i lm prev))) ! j) = stepIndex (prev ! j) + 1"
proof -
  let ?b = "prev ! j"
  let ?b' = "?b\<lparr>lastMove := Some lm, lastMoveCorrect := Some False,
                  correctSquares := [], version := version ?b + 1\<rparr>"
  have nm: "\<not> playedMatches ?b lm"
    using assms(3,4) by (auto simp: playedMatches_in_range)
  have eq: "fst (onMovePlayed i lm prev) ! j = ?b'"
    using assms(1,2) nm by (simp add: nth_onMovePlayed movedBoard_def)
  have j': "j < length (fst (onMovePlayed i lm prev))" using assms(1) by simp
  have id': "board_id (fst (onMovePlayed i lm prev) ! j) = i"
    unfolding eq using assms(2) by simp
  have again: "fst (onMovePlayed i m (fst (onMovePlayed i lm prev))) ! j = movedBoard m ?b'" for m
    using j' id' eq by (simp add: nth_onMovePlayed)
  have m: "playedMatches ?b' (toMove (solution ?b ! stepIndex ?b))"
    using toMove_matches [of ?b'] assms(3) by simp
  have "stepIndex (movedBoard (toMove (solution ?b ! stepIndex ?b)) ?b') = stepIndex ?b + 1"
    using movedBoard_correct(1) [OF m] by simp
  then show ?thesis
    unfolding again unfolding eq by simp
qed

text \<open>Witness for C4: d2-d4 played on the first board, whose solution is e2-e4.\<close>

theorem C4_incorrect_move_witness:
  "stepIndex (fst (onMovePlayed ''b-0'' (toMove (mv ''d2'' ''d4'')) (boards (useBoards 2))) ! 0) = 0 \<and>
   solved (fst (onMovePlayed ''b-0'' (toMove (mv ''d2'' ''d4'')) (boards (useBoards 2))) ! 0) = False \<and>
   lastMoveCorrect (fst (onMovePlayed ''b-0'' (toMove (mv ''d2'' ''d4'')) (boards (useBoards 2))) ! 0)
     = Some False"
proof -
  let ?prev = "boards (useBoards 2)"
  have 1: "0 < length ?prev" by code_simp
  have 2: "board_id (?prev ! 0) = ''b-0''" by code_simp
  have 3: "stepIndex (?prev ! 0) < length (solution (?prev ! 0))" by code_simp
  have 4: "\<not> (from_sq (toMove (mv ''d2'' ''d4'')) = from_sq (solution (?prev ! 0) ! stepIndex (?prev ! 0)) \<and>
              to_sq (toMove (mv ''d2'' ''d4'')) = to_sq (solution (?prev ! 0) ! stepIndex (?prev ! 0)))"
    by code_simp
  have 5: "stepIndex (?prev ! 0) = 0" by code_simp
  have 6: "\<not> solved (?prev ! 0)" by code_simp
  from C4_incorrect_move [OF 1 2 3 4] 5 6 show ?thesis by simp
qed

text \<open>
  C5. A board of the feed whose solution is empty and which is not solved is never solved
  later: after any sequence of events (moves on any board, reactions, appended boards) it
  is still at its index, its solution is still empty and \<open>solved\<close> is still false.
\<close>

theorem C5_empty_solution_never_solved:
  assumes "j < length (boards s)"
    and "solution (boards s ! j) = []"
    and "\<not> solved (boards s ! j)"
  shows "j < length (boards (run es s)) \<and>
         solution (boards (run es s) ! j) = [] \<and>
         \<not> solved (boards (run es s) ! j)"
proof -
  have "solution (boards (run es s) ! j) = [] \<and> \<not> solved (boards (run es s) ! j)"
  proof (rule run_preserves [where P = "\<lambda>b. solution b = [] \<and> \<not> solved b"])
    show "solution (movedBoard lm b) = [] \<and> \<not> solved (movedBoard lm b)"
      if "solution b = [] \<and> \<not> solved b" for b lm
      using that by (simp add: movedBoard_def solvedNow_def)
    show "solution (b\<lparr>liked := \<not> liked b\<rparr>) = [] \<and> \<not> solved (b\<lparr>liked := \<not> liked b\<rparr>)"
      if "solution b = [] \<and> \<not> solved b" for b :: BoardModel
      using that by simp
    show "solution (b\<lparr>starred := \<not> starred b\<rparr>) = [] \<and> \<not> solved (b\<lparr>starred := \<not> starred b\<rparr>)"
      if "solution b = [] \<and> \<not> solved b" for b :: BoardModel
      using that by simp
    show "j < length (boards s)" by (rule assms(1))
    show "solution (boards s ! j) = [] \<and> \<not> solved (boards s ! j)"
      using assms(2,3) by simp
  qed
  moreover have "j < length (boards (run es s))"
    using assms(1) length_run [of s es] by simp
  ultimately show ?thesis by simp
qed

text \<open>
  Witness for C5: a feed of one board made from a catalog entry with no solution step, on
  which two moves are played and a like is toggled.
\<close>

theorem C5_empty_solution_never_solved_witness:
  "\<not> solved (boards (run [MovePlayed ''b-0'' (toMove (mv ''e2'' ''e4'')), ToggleLike ''b-0'',
                            MovePlayed ''b-0'' (toMove (mv ''e7'' ''e5''))]
       \<lparr>boards = [createBoardFromPreset
                     \<lparr>fen = ''rnbqkbnr/pppppppp/8/8/8/8/PPPPPPPP/RNBQKBNR w KQkq - 0 1'',
                      preset_tactic = ''Fork'', preset_sideToPlay = Side_w,
                      preset_solution = []\<rparr> ''b-0''],
        loadingRef = False, cursorRef = 1, timers = 0, scrolls = []\<rparr>) ! 0)"
proof -
  let ?s = "\<lparr>boards = [createBoardFromPreset
                     \<lparr>fen = ''rnbqkbnr/pppppppp/8/8/8/8/PPPPPPPP/RNBQKBNR w KQkq - 0 1'',
                      preset_tactic = ''Fork'', preset_sideToPlay = Side_w,
                      preset_solution = []\<rparr> ''b-0''],
        loadingRef = False, cursorRef = 1, timers = 0, scrolls = []\<rparr>"
  have 1: "0 < length (boards ?s)" by simp
  have 2: "solution (boards ?s ! 0) = []" by (simp add: createBoardFromPreset_def)
  have 3: "\<not> solved (boards ?s ! 0)" by (simp add: createBoardFromPreset_def)
  from C5_empty_solution_never_solved [OF 1 2 3] show ?thesis by blast
qed

section \<open>Claims about the feed\<close>

text \<open>
  C6 (as stated, refuted). The claim allows an advance of the feed in two cases only: the
  move makes the instance reach solved, or the move is classified incorrect. Board
  \<open>b-0\<close> is solved once e2-e4 has been played. The reply e7-e5 played on it
  afterwards is classified correct and does not make the board reach solved (it is
  solved already), and still \<open>onMovePlayed\<close> starts the 550 ms timer that scrolls to
  index 1.
\<close>

theorem C6_counterexample:
  "solved (boards (run [MovePlayed ''b-0'' (toMove (mv ''e2'' ''e4''))] (useBoards 2)) ! 0) \<and>
   stepIndex (boards (run [MovePlayed ''b-0'' (toMove (mv ''e2'' ''e4''))] (useBoards 2)) ! 0)
     = length (solution (boards (run [MovePlayed ''b-0'' (toMove (mv ''e2'' ''e4''))] (useBoards 2)) ! 0)) \<and>
   lastMoveCorrect (fst (onMovePlayed ''b-0'' (toMove (mv ''e7'' ''e5''))
      (boards (run [MovePlayed ''b-0'' (toMove (mv ''e2'' ''e4''))] (useBoards 2)))) ! 0) = Some True \<and>
   snd (onMovePlayed ''b-0'' (toMove (mv ''e7'' ''e5''))
      (boards (run [MovePlayed ''b-0'' (toMove (mv ''e2'' ''e4''))] (useBoards 2)))) = [(550, 1)]"
  by code_simp

text \<open>
  C6 (amended). Let the board at index \<open>j\<close> be the only one with the id the move is
  addressed to. \<open>onMovePlayed\<close> starts one timer when the move is classified incorrect
  (350 ms), one timer when the move is classified correct and leaves \<open>stepIndex\<close> at or
  past the end of a non-empty solution (550 ms), and none otherwise. The second case is
  the move that completes the solution and also every move played on a board that is
  already at or past the end of its solution. The target of a timer is
  \<open>min (j + 1) (length prev - 1)\<close>, a valid index of the feed. For a board that is not
  solved and whose \<open>stepIndex\<close> is inside its solution, a timer is started exactly when the
  move is classified incorrect or the move makes the board solved.
\<close>

theorem C6_scheduled_advance:
  assumes "j < length prev" and "board_id (prev ! j) = i"
    and "\<forall>k<length prev. k \<noteq> j \<longrightarrow> board_id (prev ! k) \<noteq> i"
  shows "snd (onMovePlayed i lm prev) =
           (if lastMoveCorrect (fst (onMovePlayed i lm prev) ! j) = Some False
            then [(350, min (j + 1) (length prev - 1))]
            else if length (solution (prev ! j)) \<le> stepIndex (fst (onMovePlayed i lm prev) ! j)
                    \<and> solution (prev ! j) \<noteq> []
            then [(550, min (j + 1) (length prev - 1))]
            else []) \<and>
         min (j + 1) (length prev - 1) < length prev \<and>
         (stepIndex (prev ! j) < length (solution (prev ! j)) \<and> \<not> solved (prev ! j) \<longrightarrow>
            (snd (onMovePlayed i lm prev) \<noteq> []) =
              (lastMoveCorrect (fst (onMovePlayed i lm prev) ! j) = Some False \<or>
               solved (fst (onMovePlayed i lm prev) ! j)))"
proof -
  let ?b = "prev ! j"
  have eq: "fst (onMovePlayed i lm prev) ! j = movedBoard lm ?b"
    using assms(1,2) by (simp add: nth_onMovePlayed)
  have sc: "snd (onMovePlayed i lm prev) = scrollAfter (length prev) j lm ?b"
    using assms by (rule snd_onMovePlayed_single)
  have a: "scrollAfter (length prev) j lm ?b =
           (if lastMoveCorrect (movedBoard lm ?b) = Some False
            then [(350, min (j + 1) (length prev - 1))]
            else if length (solution ?b) \<le> stepIndex (movedBoard lm ?b) \<and> solution ?b \<noteq> []
            then [(550, min (j + 1) (length prev - 1))]
            else [])"
    by (auto simp: scrollAfter_def solvedNow_def movedBoard_def)
  have b: "min (j + 1) (length prev - 1) < length prev"
    using assms(1) by simp
  have c: "(scrollAfter (length prev) j lm ?b \<noteq> []) =
             (lastMoveCorrect (movedBoard lm ?b) = Some False \<or> solved (movedBoard lm ?b))"
    if "stepIndex ?b < length (solution ?b) \<and> \<not> solved ?b"
    using that by (auto simp: scrollAfter_def solvedNow_def movedBoard_def)
  show ?thesis
    unfolding eq sc using a b c by simp
qed

text \<open>
  Witness for C6 (amended): an incorrect move on the last board of a feed of two (target
  clamped to index 1), the solving move on the first board of a feed of three, and the
  first step of the two-step puzzle, which starts no timer.
\<close>

theorem C6_scheduled_advance_witness:
  "snd (onMovePlayed ''b-1'' (toMove (mv ''d7'' ''d5'')) (boards (useBoards 2))) = [(350, 1)] \<and>
   snd (onMovePlayed ''b-0'' (toMove (mv ''e2'' ''e4'')) (boards (useBoards 3))) = [(550, 1)] \<and>
   snd (onMovePlayed ''b-2'' (toMove (mv ''d4'' ''e5'')) (boards (useBoards 3))) = []"
proof -
  have 1: "1 < length (boards (useBoards 2))" by code_simp
  have 2: "board_id (boards (useBoards 2) ! 1) = ''b-1''" by code_simp
  have 3: "\<forall>k<length (boards (useBoards 2)). k \<noteq> 1 \<longrightarrow> board_id (boards (useBoards 2) ! k) \<noteq> ''b-1''"
    by code_simp
  have 4: "0 < length (boards (useBoards 3))" by code_simp
  have 5: "board_id (boards (useBoards 3) ! 0) = ''b-0''" by code_simp
  have 6: "\<forall>k<length (boards (useBoards 3)). k \<noteq> 0 \<longrightarrow> board_id (boards (useBoards 3) ! k) \<noteq> ''b-0''"
    by code_simp
  have 7: "2 < length (boards (useBoards 3))" by code_simp
  have 8: "board_id (boards (useBoards 3) ! 2) = ''b-2''" by code_simp
  have 9: "\<forall>k<length (boards (useBoards 3)). k \<noteq> 2 \<longrightarrow> board_id (boards (useBoards 3) ! k) \<noteq> ''b-2''"
    by code_simp
  have a: "lastMoveCorrect (fst (onMovePlayed ''b-1'' (toMove (mv ''d7'' ''d5'')) (boards (useBoards 2))) ! 1) = Some False"
    by code_simp
  have b: "lastMoveCorrect (fst (onMovePlayed ''b-0'' (toMove (mv ''e2'' ''e4'')) (boards (useBoards 3))) ! 0) = Some True"
     "stepIndex (fst (onMovePlayed ''b-0'' (toMove (mv ''e2'' ''e4'')) (boards (useBoards 3))) ! 0) = 1"
     "length (solution (boards (useBoards 3) ! 0)) = 1"
     "solution (boards (useBoards 3) ! 0) \<noteq> []"
    by code_simp+
  have c: "lastMoveCorrect (fst (onMovePlayed ''b-2'' (toMove (mv ''d4'' ''e5'')) (boards (useBoards 3))) ! 2) = Some True"
     "stepIndex (fst (onMovePlayed ''b-2'' (toMove (mv ''d4'' ''e5'')) (boards (useBoards 3))) ! 2) = 1"
     "\<not> length (solution (boards (useBoards 3) ! 2)) \<le> 1"
    by code_simp+
  have l2: "length (boards (useBoards 2)) = 2" and l3: "length (boards (useBoards 3)) = 3"
    by code_simp+
  from C6_scheduled_advance [OF 1 2 3, of "toMove (mv ''d7'' ''d5'')"] a l2
  have A: "snd (onMovePlayed ''b-1'' (toMove (mv ''d7'' ''d5'')) (boards (useBoards 2))) = [(350, 1)]"
    by simp
  from C6_scheduled_advance [OF 4 5 6, of "toMove (mv ''e2'' ''e4'')"] b l3
  have B: "snd (onMovePlayed ''b-0'' (toMove (mv ''e2'' ''e4'')) (boards (useBoards 3))) = [(550, 1)]"
    by simp
  from C6_scheduled_advance [OF 7 8 9, of "toMove (mv ''d4'' ''e5'')"] c l3
  have C: "snd (onMovePlayed ''b-2'' (toMove (mv ''d4'' ''e5'')) (boards (useBoards 3))) = []"
    by simp
  from A B C show ?thesis by simp
qed

text \<open>
  C7. In every feed reached from \<open>useBoards initial\<close> by any sequence of events, the
  board at index \<open>i\<close> has the id \<open>b-i\<close> and the position, label, side and solution of
  the catalog entry at \<open>i mod K\<close>, where \<open>K = 10\<close> is the size of the catalog; this covers
  the \<open>initial\<close> boards made at the start and the boards that \<open>addBoard\<close> appends. The
  feed never shrinks, and the ids at the positions it already has stay where they are:
  new boards go to the end.
\<close>

theorem C7_catalog_cycle:
  "(\<forall>i<length (boards (run es (useBoards initial))).
      board_id (boards (run es (useBoards initial)) ! i) = ''b-'' @ digits i \<and>
      chess (boards (run es (useBoards initial)) ! i)
        = Chess (fen (PRESET_PUZZLES ! (i mod length PRESET_PUZZLES))) \<and>
      tactic_label (boards (run es (useBoards initial)) ! i)
        = preset_tactic (PRESET_PUZZLES ! (i mod length PRESET_PUZZLES)) \<and>
      sideToPlay (boards (run es (useBoards initial)) ! i)
        = preset_sideToPlay (PRESET_PUZZLES ! (i mod length PRESET_PUZZLES)) \<and>
      solution (boards (run es (useBoards initial)) ! i)
        = preset_solution (PRESET_PUZZLES ! (i mod length PRESET_PUZZLES))) \<and>
   length PRESET_PUZZLES = 10 \<and>
   length (boards (useBoards initial)) = initial \<and>
   length (boards s) \<le> length (boards (run es' s)) \<and>
   take (length (boards s)) (map board_id (boards (run es' s))) = map board_id (boards s)"
proof -
  have "feed_inv (run es (useBoards initial))"
    using feed_inv_useBoards by (rule feed_inv_run)
  then have "\<forall>i<length (boards (run es (useBoards initial))).
               builtFrom i (boards (run es (useBoards initial)) ! i)"
    by (simp add: feed_inv_def)
  moreover have "length (boards (useBoards initial)) = initial"
    by (simp add: useBoards_def)
  ultimately show ?thesis
    using length_run [of s es'] run_ids_prefix [of s es'] length_PRESET_PUZZLES
    by (simp add: builtFrom_def presetAt_def boardId_def)
qed

text \<open>
  Witness for C7: a feed that starts with the ten entries of the catalog; the board
  appended next, at index 10, wraps around to the first entry.
\<close>

theorem C7_catalog_cycle_witness:
  "length (boards (run [AddBoard, AddBoardTimeout] (useBoards 10))) = 11 \<and>
   solution (boards (run [AddBoard, AddBoardTimeout] (useBoards 10)) ! 10) = [mv ''e2'' ''e4''] \<and>
   board_id (boards (run [AddBoard, AddBoardTimeout] (useBoards 10)) ! 10) = ''b-10''"
proof -
  have 1: "length (boards (run [AddBoard, AddBoardTimeout] (useBoards 10))) = 11" by code_simp
  have 2: "preset_solution (PRESET_PUZZLES ! (10 mod length PRESET_PUZZLES)) = [mv ''e2'' ''e4'']"
    by code_simp
  have 3: "''b-'' @ digits 10 = ''b-10''" by code_simp
  from C7_catalog_cycle [of "[AddBoard, AddBoardTimeout]" 10] 1
  have "board_id (boards (run [AddBoard, AddBoardTimeout] (useBoards 10)) ! 10) = ''b-'' @ digits 10 \<and>
        solution (boards (run [AddBoard, AddBoardTimeout] (useBoards 10)) ! 10)
          = preset_solution (PRESET_PUZZLES ! (10 mod length PRESET_PUZZLES))"
    by simp
  with 1 2 3 show ?thesis by simp
qed

text \<open>
  C8 (as stated, refuted). The claim says that toggling \<open>liked\<close> or \<open>starred\<close> increases
  the version of the board. \<open>toggleLike\<close> and \<open>toggleStar\<close> flip their flag on board
  \<open>b-0\<close> and leave its version as it was.
\<close>

theorem C8_counterexample:
  "liked (toggleLike ''b-0'' (boards (useBoards 2)) ! 0) \<noteq> liked (boards (useBoards 2) ! 0) \<and>
   version (toggleLike ''b-0'' (boards (useBoards 2)) ! 0) = version (boards (useBoards 2) ! 0) \<and>
   starred (toggleStar ''b-0'' (boards (useBoards 2)) ! 0) \<noteq> starred (boards (useBoards 2) ! 0) \<and>
   version (toggleStar ''b-0'' (boards (useBoards 2)) ! 0) = version (boards (useBoards 2) ! 0)"
  by code_simp

text \<open>
  C8 (amended). A move played on a board increases its version by exactly 1, for a
  correct and for an incorrect move alike. \<open>toggleLike\<close> and \<open>toggleStar\<close> flip
  \<open>liked\<close> and \<open>starred\<close> and leave the version unchanged.
\<close>

theorem C8_version:
  assumes "j < length prev" and "board_id (prev ! j) = i"
  shows "version (fst (onMovePlayed i lm prev) ! j) = version (prev ! j) + 1 \<and>
         version (prev ! j) < version (fst (onMovePlayed i lm prev) ! j) \<and>
         version (toggleLike i prev ! j) = version (prev ! j) \<and>
         version (toggleStar i prev ! j) = version (prev ! j) \<and>
         liked (toggleLike i prev ! j) = (\<not> liked (prev ! j)) \<and>
         starred (toggleStar i prev ! j) = (\<not> starred (prev ! j))"
  using assms by (simp add: nth_onMovePlayed nth_toggleLike nth_toggleStar)

text \<open>Witness for C8 (amended): board \<open>b-0\<close> of the starting feed.\<close>

theorem C8_version_witness:
  "version (fst (onMovePlayed ''b-0'' (toMove (mv ''d2'' ''d4'')) (boards (useBoards 2))) ! 0) = 1 \<and>
   version (toggleLike ''b-0'' (boards (useBoards 2)) ! 0) = 0"
proof -
  have 1: "0 < length (boards (useBoards 2))" by code_simp
  have 2: "board_id (boards (useBoards 2) ! 0) = ''b-0''" by code_simp
  have 3: "version (boards (useBoards 2) ! 0) = 0" by code_simp
  from C8_version [OF 1 2, of "toMove (mv ''d2'' ''d4'')"] 3 show ?thesis by simp
qed

text \<open>
  C10. \<open>onMovePlayed\<close>, \<open>toggleLike\<close> and \<open>toggleStar\<close> keep the length of the array and
  return every board whose id is not the one addressed as it is, in its place, with all of
  its fields. In a feed reached from \<open>useBoards initial\<close> the ids are distinct, so an
  operation addressed to the board at index \<open>k\<close> leaves the board at every other index
  unchanged.
\<close>

theorem C10_others_unchanged:
  "length (fst (onMovePlayed i lm prev)) = length prev \<and>
   length (toggleLike i prev) = length prev \<and>
   length (toggleStar i prev) = length prev \<and>
   (\<forall>j<length prev. board_id (prev ! j) \<noteq> i \<longrightarrow>
      fst (onMovePlayed i lm prev) ! j = prev ! j \<and>
      toggleLike i prev ! j = prev ! j \<and>
      toggleStar i prev ! j = prev ! j) \<and>
   (\<forall>k<length (boards (run es (useBoards initial))).
    \<forall>j<length (boards (run es (useBoards initial))). j \<noteq> k \<longrightarrow>
      fst (onMovePlayed (board_id (boards (run es (useBoards initial)) ! k)) lm
             (boards (run es (useBoards initial)))) ! j
        = boards (run es (useBoards initial)) ! j \<and>
      toggleLike (board_id (boards (run es (useBoards initial)) ! k))
             (boards (run es (useBoards initial))) ! j
        = boards (run es (useBoards initial)) ! j \<and>
      toggleStar (board_id (boards (run es (useBoards initial)) ! k))
             (boards (run es (useBoards initial))) ! j
        = boards (run es (useBoards initial)) ! j)"
proof -
  let ?s = "run es (useBoards initial)"
  have inv: "feed_inv ?s" using feed_inv_useBoards by (rule feed_inv_run)
  have general: "fst (onMovePlayed a lm xs) ! j = xs ! j \<and> toggleLike a xs ! j = xs ! j \<and>
                 toggleStar a xs ! j = xs ! j"
    if "j < length xs" "board_id (xs ! j) \<noteq> a" for a xs j
    using that by (simp add: nth_onMovePlayed nth_toggleLike nth_toggleStar)
  have reach: "fst (onMovePlayed (board_id (boards ?s ! k)) lm (boards ?s)) ! j = boards ?s ! j \<and>
               toggleLike (board_id (boards ?s ! k)) (boards ?s) ! j = boards ?s ! j \<and>
               toggleStar (board_id (boards ?s ! k)) (boards ?s) ! j = boards ?s ! j"
    if "k < length (boards ?s)" "j < length (boards ?s)" "j \<noteq> k" for j k
    using general [OF that(2)] feed_inv_distinct [OF inv that(2,1,3)] by blast
  show ?thesis
    using general [of _ prev i] reach by simp
qed

text \<open>
  Witness for C10: operations addressed to \<open>b-0\<close> in the starting feed leave \<open>b-1\<close> as it
  is, while the move does change \<open>b-0\<close>.
\<close>

theorem C10_others_unchanged_witness:
  "fst (onMovePlayed ''b-0'' (toMove (mv ''e2'' ''e4'')) (boards (useBoards 2))) ! 1
     = boards (useBoards 2) ! 1 \<and>
   toggleLike ''b-0'' (boards (useBoards 2)) ! 1 = boards (useBoards 2) ! 1 \<and>
   toggleStar ''b-0'' (boards (useBoards 2)) ! 1 = boards (useBoards 2) ! 1 \<and>
   fst (onMovePlayed ''b-0'' (toMove (mv ''e2'' ''e4'')) (boards (useBoards 2))) ! 0
     \<noteq> boards (useBoards 2) ! 0"
proof -
  have 1: "1 < length (boards (useBoards 2))" by code_simp
  have 2: "board_id (boards (useBoards 2) ! 1) \<noteq> ''b-0''" by code_simp
  have 3: "fst (onMovePlayed ''b-0'' (toMove (mv ''e2'' ''e4'')) (boards (useBoards 2))) ! 0
     \<noteq> boards (useBoards 2) ! 0" by code_simp
  from C10_others_unchanged [of "''b-0''" "toMove (mv ''e2'' ''e4'')" "boards (useBoards 2)"] 1 2 3
  show ?thesis by blast
qed

section \<open>Claims about the onboarding flag\<close>

text \<open>
  C9 (as stated, refuted). The claim says that the app goes to the puzzle feed when the
  flag reads as completed. With the flag written as \<open>1\<close> and read back without failure,
  \<open>hasCompletedRef\<close> is true, and the splash screen still goes to onboarding:
  \<open>FORCE_ONBOARDING_EVERY_TIME\<close> is \<open>true\<close> in lib/config.
\<close>

theorem C9_counterexample:
  "getItem (setItem [] ''onboardingCompleted'' ''1'') ''onboardingCompleted'' = Some ''1'' \<and>
   hasCompleted (Some (Resolved (getItem (setItem [] ''onboardingCompleted'' ''1'') ''onboardingCompleted''))) \<and>
   Splash (Some (Resolved (getItem (setItem [] ''onboardingCompleted'' ''1'') ''onboardingCompleted'')))
     = ''/onboarding''"
  by (simp add: getItem_def setItem_def hasCompleted_def Splash_def splashPath_def
      FORCE_ONBOARDING_EVERY_TIME_def)

text \<open>
  C9 (amended). The route of the splash screen is decided by the switch
  \<open>FORCE_ONBOARDING_EVERY_TIME\<close> first and by the flag second: it is the puzzle feed
  exactly when the switch is off and the read of the flag has resolved to \<open>1\<close> by the end
  of the animation, and onboarding otherwise. With the switch as lib/config sets it
  (\<open>true\<close>) the route is onboarding whatever the flag is. A rejected read and a read that
  has not settled leave the flag at not completed. \<open>completeAndEnter\<close> makes one write,
  of \<open>1\<close> under the key \<open>onboardingCompleted\<close> (none when the write rejects), and goes to
  the puzzle feed; after the write the flag reads as completed.
\<close>

theorem C9_initial_route:
  "(splashPath force (hasCompleted r) = ''/(tabs)/puzzles'') =
     (\<not> force \<and> r = Some (Resolved (Some ''1''))) \<and>
   (splashPath force (hasCompleted r) = ''/onboarding'') =
     (force \<or> r \<noteq> Some (Resolved (Some ''1''))) \<and>
   Splash r = ''/onboarding'' \<and>
   \<not> hasCompleted (Some Rejected) \<and> \<not> hasCompleted None \<and>
   completeAndEnter True st = ((''onboardingCompleted'', ''1'') # st, ''/(tabs)/puzzles'') \<and>
   completeAndEnter False st = (st, ''/(tabs)/puzzles'') \<and>
   hasCompleted (Some (Resolved (getItem (fst (completeAndEnter True st)) ''onboardingCompleted'')))"
proof -
  have hc: "hasCompleted r = (r = Some (Resolved (Some ''1'')))"
    by (simp add: hasCompleted_def split: option.splits ReadResult.splits)
  have 1: "(splashPath force (hasCompleted r) = ''/(tabs)/puzzles'') =
     (\<not> force \<and> r = Some (Resolved (Some ''1'')))"
    unfolding hc by (simp add: splashPath_def)
  have 2: "(splashPath force (hasCompleted r) = ''/onboarding'') =
     (force \<or> r \<noteq> Some (Resolved (Some ''1'')))"
    unfolding hc by (simp add: splashPath_def)
  have 3: "Splash r = ''/onboarding''"
    by (simp add: Splash_def splashPath_def FORCE_ONBOARDING_EVERY_TIME_def)
  have 4: "\<not> hasCompleted (Some Rejected) \<and> \<not> hasCompleted None"
    by (simp add: hasCompleted_def)
  have 5: "completeAndEnter True st = ((''onboardingCompleted'', ''1'') # st, ''/(tabs)/puzzles'')"
      "completeAndEnter False st = (st, ''/(tabs)/puzzles'')"
    by (simp_all add: completeAndEnter_def setItem_def)
  have 6: "hasCompleted (Some (Resolved (getItem (fst (completeAndEnter True st)) ''onboardingCompleted'')))"
    by (simp add: completeAndEnter_def setItem_def getItem_def hasCompleted_def)
  from 1 2 3 4 5 6 show ?thesis by blast
qed

text \<open>
  Witness for C9 (amended): with the switch off, a flag read as \<open>1\<close> leads to the feed and
  a rejected read to onboarding; with the switch as configured, the same flag leads to
  onboarding.
\<close>

theorem C9_initial_route_witness:
  "splashPath False (hasCompleted (Some (Resolved (Some ''1'')))) = ''/(tabs)/puzzles'' \<and>
   splashPath False (hasCompleted (Some Rejected)) = ''/onboarding'' \<and>
   Splash (Some (Resolved (Some ''1''))) = ''/onboarding''"
proof -
  from C9_initial_route [of False "Some (Resolved (Some ''1''))" "[]"]
  have a: "splashPath False (hasCompleted (Some (Resolved (Some ''1'')))) = ''/(tabs)/puzzles''"
    by blast
  from C9_initial_route [of False "Some Rejected" "[]"]
  have b: "splashPath False (hasCompleted (Some Rejected)) = ''/onboarding''"
    by blast
  from C9_initial_route [of True "Some (Resolved (Some ''1''))" "[]"]
  have c: "Splash (Some (Resolved (Some ''1''))) = ''/onboarding''"
    by blast
  from a b c show ?thesis by simp
qed

end
